theory Spec2Isabelle
  imports Complex_Main "HOL-Library.Sublist" "HOL-Library.AList" "HOL-Library.Multiset"
begin

section \<open>The broken-link checker (qc/check\_broken\_links.py)\<close>

text \<open>
  The development embeds the functions of \<^verbatim>\<open>check_broken_links.py\<close>: the link extractor,
  the per-domain delay table, the rate-limited URL check, the batch worker, the local file
  check, the batch splitting and merging loops of \<^verbatim>\<open>main\<close>, and the classification of
  the final report. Library calls (BeautifulSoup, \<^verbatim>\<open>requests\<close>, \<^verbatim>\<open>urlparse\<close>,
  \<^verbatim>\<open>os.path\<close>, \<^verbatim>\<open>time\<close>) are the environment: their results are inputs of the model.
\<close>

subsection \<open>Python values\<close>

text \<open>Exceptions that reach the modelled code as values.\<close>

datatype py_error = ValueError string | KeyError string | OSError string

text \<open>\<^verbatim>\<open>s.startswith(p)\<close> is \<^const>\<open>prefix\<close>; \<^verbatim>\<open>p in s\<close> on strings is \<^const>\<open>sublist\<close>.\<close>

definition startswith :: "string \<Rightarrow> string \<Rightarrow> bool" where
  "startswith s p = prefix p s"

definition str_contains :: "string \<Rightarrow> string \<Rightarrow> bool" where
  "str_contains p s = sublist p s"

subsection \<open>Splitting the unique URLs into batches (main, phase 4)\<close>

text \<open>
  \<^verbatim>\<open>range(start, stop, step)\<close> for a positive step. Python raises on step 0; the only
  caller passes the constant 20, and the model returns the empty range there.
\<close>

function py_range :: "nat \<Rightarrow> nat \<Rightarrow> nat \<Rightarrow> nat list" where
  "py_range start stop step =
     (if step = 0 \<or> stop \<le> start then [] else start # py_range (start + step) stop step)"
  by pat_completeness auto
termination
  by (relation "measure (\<lambda>(start, stop, step). stop - start)") auto

declare py_range.simps [simp del]

text \<open>\<^verbatim>\<open>xs[i:j]\<close> for \<open>0 \<le> i \<le> j\<close>: the slice is clipped at the end of the list.\<close>

definition py_slice :: "'a list \<Rightarrow> nat \<Rightarrow> nat \<Rightarrow> 'a list" where
  "py_slice xs i j = take (j - i) (drop i xs)"

definition batch_size :: nat where
  "batch_size = 20"

text \<open>
  \<^verbatim>\<open>
  for i in range(0, len(unique_urls_list), batch_size):
      batch = unique_urls_list[i:i + batch_size]
      url_batches.append(batch)
  \<close>
\<close>

definition split_batches :: "'a list \<Rightarrow> 'a list list" where
  "split_batches unique_urls_list =
     map (\<lambda>i. py_slice unique_urls_list i (i + batch_size))
       (py_range 0 (length unique_urls_list) batch_size)"

subsection \<open>Link extraction (extract\_links\_from\_html)\<close>

text \<open>
  BeautifulSoup is the environment: the parsed document is the list of its tags in document
  order, each with its name and its attribute dictionary. Reading or parsing may fail;
  the function catches every exception and returns the empty list.
\<close>

record tag =
  tag_name :: string
  attrs :: "(string \<times> string) list"

text \<open>\<^verbatim>\<open>soup.find_all(name, attr=True)\<close>: the tags of that name that carry the attribute.\<close>

definition find_all :: "string \<Rightarrow> string \<Rightarrow> tag list \<Rightarrow> tag list" where
  "find_all name attr soup =
     filter (\<lambda>t. tag_name t = name \<and> map_of (attrs t) attr \<noteq> None) soup"

text \<open>\<^verbatim>\<open>tag[attr]\<close> raises KeyError when the attribute is missing.\<close>

definition tag_get :: "tag \<Rightarrow> string \<Rightarrow> py_error + string" where
  "tag_get t attr = (case map_of (attrs t) attr of None \<Rightarrow> Inl (KeyError attr) | Some v \<Rightarrow> Inr v)"

type_synonym links = "(string \<times> string) list"

fun a_loop :: "tag list \<Rightarrow> links \<Rightarrow> py_error + links" where
  "a_loop [] links = Inr links"
| "a_loop (a_tag # ts) links =
     (case tag_get a_tag ''href'' of
        Inl e \<Rightarrow> Inl e
      | Inr href \<Rightarrow>
          if startswith href ''http'' then a_loop ts (links @ [(''link'', href)])
          else a_loop ts links)"

fun img_loop :: "tag list \<Rightarrow> links \<Rightarrow> py_error + links" where
  "img_loop [] links = Inr links"
| "img_loop (img_tag # ts) links =
     (case tag_get img_tag ''src'' of
        Inl e \<Rightarrow> Inl e
      | Inr src \<Rightarrow>
          if startswith src ''http'' then img_loop ts (links @ [(''image'', src)])
          else if \<not> startswith src ''#'' \<and> \<not> startswith src ''data:''
            then img_loop ts (links @ [(''local_image'', src)])
          else img_loop ts links)"

fun link_loop :: "tag list \<Rightarrow> links \<Rightarrow> py_error + links" where
  "link_loop [] links = Inr links"
| "link_loop (link_tag # ts) links =
     (case tag_get link_tag ''href'' of
        Inl e \<Rightarrow> Inl e
      | Inr href \<Rightarrow>
          if startswith href ''http'' then link_loop ts (links @ [(''resource'', href)])
          else link_loop ts links)"

text \<open>The body of the \<^verbatim>\<open>try\<close> block, on the parsed document.\<close>

definition extract_links_body :: "tag list \<Rightarrow> py_error + links" where
  "extract_links_body soup =
     (case a_loop (find_all ''a'' ''href'' soup) [] of
        Inl e \<Rightarrow> Inl e
      | Inr links1 \<Rightarrow>
          (case img_loop (find_all ''img'' ''src'' soup) links1 of
             Inl e \<Rightarrow> Inl e
           | Inr links2 \<Rightarrow> link_loop (find_all ''link'' ''href'' soup) links2))"

text \<open>
  The argument is what opening, reading and parsing the file gives: an exception or the
  document. \<^verbatim>\<open>except Exception\<close> turns every failure into \<open>[]\<close>.
\<close>

definition extract_links_from_html :: "py_error + tag list \<Rightarrow> links" where
  "extract_links_from_html parsed =
     (case parsed of
        Inl e \<Rightarrow> []
      | Inr soup \<Rightarrow> (case extract_links_body soup of Inl e \<Rightarrow> [] | Inr links \<Rightarrow> links))"

subsection \<open>Per-domain delay (get\_domain\_delay)\<close>

text \<open>Times are seconds, as rationals (\<open>2.0\<close>, \<open>3.0\<close>, \<open>0.5\<close> in the source).\<close>

definition get_domain_delay :: "string \<Rightarrow> rat" where
  "get_domain_delay domain =
     (if str_contains ''doi.org'' domain \<or> str_contains ''jstor.org'' domain then 2
      else if str_contains ''oed.com'' domain \<or> str_contains ''britishmuseum.org'' domain then 3
      else 1 / 2)"

subsection \<open>The rate-limited check (check\_url\_with\_rate\_limit)\<close>

text \<open>
  The environment of one check: \<^verbatim>\<open>urlparse(url).netloc\<close> (which raises ValueError on a
  malformed authority), the outcome of each request (a response with status code and
  reason phrase, or a \<^verbatim>\<open>RequestException\<close> with its text), and how long each request
  takes.
\<close>

datatype http_method = HEAD | GET

datatype http_outcome = Response int string | RequestException string

record env =
  urlparse_netloc :: "string \<Rightarrow> py_error + string"
  http_request :: "http_method \<Rightarrow> string \<Rightarrow> http_outcome"
  http_latency :: "http_method \<Rightarrow> string \<Rightarrow> rat"

text \<open>
  The state the function reads and writes: the clock (\<^verbatim>\<open>time.time()\<close>), the global
  \<^verbatim>\<open>domain_last_request\<close> (a \<^verbatim>\<open>defaultdict(float)\<close>: absent domains read as 0), and the
  requests put on the wire so far. The function body runs under the domain's lock, so
  one call is one uninterrupted sequence of steps for its domain.
\<close>

record world =
  clock :: rat
  domain_last_request :: "string \<Rightarrow> rat"
  requests_sent :: "(http_method \<times> string) list"

type_synonym check_result = "int option \<times> string"

text \<open>
  \<^verbatim>\<open>
  time_since_last = time.time() - domain_last_request[domain]
  if time_since_last < delay:
      time.sleep(delay - time_since_last)
  \<close>
\<close>

definition enforce_delay :: "string \<Rightarrow> world \<Rightarrow> world" where
  "enforce_delay domain w =
     (let delay = get_domain_delay domain;
          time_since_last = clock w - domain_last_request w domain
      in if time_since_last < delay then w\<lparr>clock := clock w + (delay - time_since_last)\<rparr>
         else w)"

text \<open>\<^verbatim>\<open>requests.head\<close> / \<^verbatim>\<open>requests.get\<close>: the request goes out, time passes, the outcome comes back.\<close>

definition send_request :: "env \<Rightarrow> http_method \<Rightarrow> string \<Rightarrow> world \<Rightarrow> http_outcome \<times> world" where
  "send_request e m url w =
     (http_request e m url,
      w\<lparr>clock := clock w + http_latency e m url,
        requests_sent := requests_sent w @ [(m, url)]\<rparr>)"

text \<open>\<^verbatim>\<open>domain_last_request[domain] = time.time()\<close>\<close>

definition record_request_time :: "string \<Rightarrow> world \<Rightarrow> world" where
  "record_request_time domain w =
     w\<lparr>domain_last_request := (domain_last_request w)(domain := clock w)\<rparr>"

definition check_url_with_rate_limit ::
  "env \<Rightarrow> string \<Rightarrow> world \<Rightarrow> py_error + (check_result \<times> world)" where
  "check_url_with_rate_limit e url w =
     (case urlparse_netloc e url of
        Inl err \<Rightarrow> Inl err
      | Inr domain \<Rightarrow>
          (let w1 = enforce_delay domain w in
           case send_request e HEAD url w1 of
             (Response status_code reason, w2) \<Rightarrow>
               (let w3 = record_request_time domain w2 in
                if status_code = 405 \<or> status_code = 406 then
                  (case send_request e GET url w3 of
                     (Response status_code2 reason2, w4) \<Rightarrow>
                       if status_code2 = 200
                       then Inr ((Some status_code2, reason2 @ '' (works with browser headers)''), w4)
                       else Inr ((Some status_code2, reason2), w4)
                   | (RequestException e1, w4) \<Rightarrow>
                       Inr ((Some status_code, reason @ '' (HEAD only, may work in browser)''), w4))
                else Inr ((Some status_code, reason), w3))
           | (RequestException e1, w2) \<Rightarrow>
               (case send_request e GET url w2 of
                  (Response status_code2 reason2, w3) \<Rightarrow>
                    Inr ((Some status_code2, reason2 @ '' (GET only)''), record_request_time domain w3)
                | (RequestException e2, w3) \<Rightarrow>
                    Inr ((None, e2), record_request_time domain w3))))"

subsection \<open>One batch (check\_url\_batch)\<close>

text \<open>
  A Python dict is an association list in insertion order; \<^verbatim>\<open>d[k] = v\<close> is
  \<^const>\<open>AList.update\<close> (an existing key keeps its place, a new one goes to the end).
  The batch id only labels the log lines, which are not modelled.
\<close>

type_synonym url_dict = "(string \<times> check_result) list"

fun check_url_batch_loop ::
  "env \<Rightarrow> string list \<Rightarrow> url_dict \<Rightarrow> world \<Rightarrow> py_error + (url_dict \<times> world)" where
  "check_url_batch_loop e [] results w = Inr (results, w)"
| "check_url_batch_loop e (url # urls) results w =
     (case check_url_with_rate_limit e url w of
        Inl err \<Rightarrow> Inl err
      | Inr ((status_code, reason), w') \<Rightarrow>
          check_url_batch_loop e urls (AList.update url (status_code, reason) results) w')"

definition check_url_batch :: "env \<Rightarrow> string list \<Rightarrow> world \<Rightarrow> py_error + (url_dict \<times> world)" where
  "check_url_batch e urls_batch w = check_url_batch_loop e urls_batch [] w"

subsection \<open>Local files (check\_local\_file)\<close>

text \<open>
  \<^verbatim>\<open>os.path.join\<close> and \<^verbatim>\<open>os.path.dirname\<close> of \<^verbatim>\<open>posixpath\<close>, for two components.
  \<^verbatim>\<open>os.path.exists\<close> is a predicate of the environment. None of the three raises on
  strings, so the \<^verbatim>\<open>except\<close> clause of the function has nothing to catch.
\<close>

definition endswith :: "string \<Rightarrow> string \<Rightarrow> bool" where
  "endswith s p = suffix p s"

definition os_path_join :: "string \<Rightarrow> string \<Rightarrow> string" where
  "os_path_join a b =
     (if startswith b ''/'' then b
      else if a = [] \<or> endswith a ''/'' then a @ b
      else a @ ''/'' @ b)"

definition rstrip_sep :: "string \<Rightarrow> string" where
  "rstrip_sep s = rev (dropWhile (\<lambda>c. c = CHR ''/'') (rev s))"

definition os_path_dirname :: "string \<Rightarrow> string" where
  "os_path_dirname p =
     (let head = rev (dropWhile (\<lambda>c. c \<noteq> CHR ''/'') (rev p))
      in if head \<noteq> [] \<and> \<not> list_all (\<lambda>c. c = CHR ''/'') head then rstrip_sep head else head)"

definition check_local_file :: "(string \<Rightarrow> bool) \<Rightarrow> string \<Rightarrow> string \<Rightarrow> bool \<times> string" where
  "check_local_file os_path_exists file_path html_dir =
     (let full_path = os_path_join html_dir file_path in
      if os_path_exists full_path then (True, ''File exists'')
      else
        let project_root = os_path_dirname html_dir;
            full_path = os_path_join project_root file_path
        in if os_path_exists full_path then (True, ''File exists'')
           else (False, ''File not found''))"

subsection \<open>Merging the batch results (main, phase 4)\<close>

text \<open>\<^verbatim>\<open>status_code is None or status_code >= 400\<close>\<close>

definition is_failing :: "int option \<Rightarrow> bool" where
  "is_failing status_code = (case status_code of None \<Rightarrow> True | Some c \<Rightarrow> c \<ge> 400)"

text \<open>\<^verbatim>\<open>d.update(other)\<close>: the items of \<open>other\<close> are stored one by one, in order.\<close>

definition dict_update :: "('k \<times> 'v) list \<Rightarrow> ('k \<times> 'v) list \<Rightarrow> ('k \<times> 'v) list" where
  "dict_update d other = fold (\<lambda>(k, v). AList.update k v) other d"

record merge_state =
  url_status :: url_dict
  broken_url_count :: nat
  completed_batches :: nat

text \<open>
  The loop over \<^verbatim>\<open>as_completed(future_to_batch)\<close>: the futures arrive in completion order,
  each with its batch's dictionary or with the exception the batch raised. A failed batch
  is logged and leaves the state as it is.
\<close>

fun merge_completed :: "(py_error + url_dict) list \<Rightarrow> merge_state \<Rightarrow> merge_state" where
  "merge_completed [] s = s"
| "merge_completed (Inr batch_results # futures) s =
     (let batch_broken = length (filter (\<lambda>(url, (status, reason)). is_failing status) batch_results)
      in merge_completed futures
           (s\<lparr>url_status := dict_update (url_status s) batch_results,
              broken_url_count := broken_url_count s + batch_broken,
              completed_batches := completed_batches s + 1\<rparr>))"
| "merge_completed (Inl e # futures) s = merge_completed futures s"

definition initial_merge_state :: merge_state where
  "initial_merge_state = \<lparr>url_status = [], broken_url_count = 0, completed_batches = 0\<rparr>"

subsection \<open>Classification in the final report (main, phase 5)\<close>

text \<open>
  An issue is the tuple \<^verbatim>\<open>(link_type, url, status, reason, category)\<close>; the status is the
  string \<^verbatim>\<open>"MISSING"\<close> for a local file and the status code (or \<^verbatim>\<open>None\<close>) for a URL.
\<close>

datatype issue_status = MISSING | Status "int option"

type_synonym issue = "string \<times> string \<times> issue_status \<times> string \<times> string"

record report_counts =
  broken_count :: nat
  browser_working_count :: nat
  definitely_broken_count :: nat

text \<open>
  One iteration of \<^verbatim>\<open>for link_type, url in links\<close>. A URL that is in neither dictionary
  raises KeyError (a URL of a failed batch).
\<close>

definition report_link ::
  "(string \<times> bool \<times> string) list \<Rightarrow> url_dict \<Rightarrow> string \<times> string \<Rightarrow>
   issue list \<times> report_counts \<Rightarrow> py_error + (issue list \<times> report_counts)" where
  "report_link local_file_status url_stat link st =
     (case link of (link_type, url) \<Rightarrow>
      case st of (file_issues, c) \<Rightarrow>
        if link_type = ''local_image'' then
          (case map_of local_file_status url of
             None \<Rightarrow> Inl (KeyError url)
           | Some (exists, reason) \<Rightarrow>
               if \<not> exists then
                 Inr (file_issues @ [(link_type, url, MISSING, reason, ''broken'')],
                      c\<lparr>broken_count := broken_count c + 1,
                        definitely_broken_count := definitely_broken_count c + 1\<rparr>)
               else Inr st)
        else
          (case map_of url_stat url of
             None \<Rightarrow> Inl (KeyError url)
           | Some (status_code, reason) \<Rightarrow>
               if is_failing status_code then
                 (if str_contains ''works with browser headers'' reason then
                    Inr (file_issues @ [(link_type, url, Status status_code, reason, ''browser_ok'')],
                         c\<lparr>browser_working_count := browser_working_count c + 1,
                           broken_count := broken_count c + 1\<rparr>)
                  else if str_contains ''may work in browser'' reason then
                    Inr (file_issues @ [(link_type, url, Status status_code, reason, ''maybe_ok'')],
                         c\<lparr>browser_working_count := browser_working_count c + 1,
                           broken_count := broken_count c + 1\<rparr>)
                  else
                    Inr (file_issues @ [(link_type, url, Status status_code, reason, ''broken'')],
                         c\<lparr>definitely_broken_count := definitely_broken_count c + 1,
                           broken_count := broken_count c + 1\<rparr>))
               else Inr st))"

text \<open>The loop over the links of one file, starting from no issues.\<close>

fun report_links ::
  "(string \<times> bool \<times> string) list \<Rightarrow> url_dict \<Rightarrow> (string \<times> string) list \<Rightarrow>
   issue list \<times> report_counts \<Rightarrow> py_error + (issue list \<times> report_counts)" where
  "report_links local_file_status url_stat [] st = Inr st"
| "report_links local_file_status url_stat (link # links) st =
     (case report_link local_file_status url_stat link st of
        Inl e \<Rightarrow> Inl e
      | Inr st' \<Rightarrow> report_links local_file_status url_stat links st')"


subsection \<open>What one tag is expected to contribute\<close>

text \<open>
  The reference a single tag yields, read off the tag's kind and the scheme of its target:
  the specification the extractor's three loops are compared with.
\<close>

definition expected_reference :: "tag \<Rightarrow> (string \<times> string) option" where
  "expected_reference t =
     (if tag_name t = ''a'' then
        (case map_of (attrs t) ''href'' of
           Some href \<Rightarrow> if startswith href ''http'' then Some (''link'', href) else None
         | None \<Rightarrow> None)
      else if tag_name t = ''img'' then
        (case map_of (attrs t) ''src'' of
           Some src \<Rightarrow>
             if startswith src ''http'' then Some (''image'', src)
             else if startswith src ''#'' \<or> startswith src ''data:'' then None
             else Some (''local_image'', src)
         | None \<Rightarrow> None)
      else if tag_name t = ''link'' then
        (case map_of (attrs t) ''href'' of
           Some href \<Rightarrow> if startswith href ''http'' then Some (''resource'', href) else None
         | None \<Rightarrow> None)
      else None)"

definition tags_named :: "string \<Rightarrow> tag list \<Rightarrow> tag list" where
  "tags_named name soup = filter (\<lambda>t. tag_name t = name) soup"

subsection \<open>Texts supplied by the servers\<close>

text \<open>
  The reason phrases and error texts come from outside. This predicate says that none of
  those a check of the URL can meet (the HEAD and the GET outcome) contains the marker.
\<close>

definition texts_free_of :: "string \<Rightarrow> env \<Rightarrow> string \<Rightarrow> bool" where
  "texts_free_of marker e url =
     (\<forall>m \<in> {HEAD, GET}.
        case http_request e m url of
          Response s r \<Rightarrow> \<not> str_contains marker r
        | RequestException t \<Rightarrow> \<not> str_contains marker t)"

subsection \<open>Example environments\<close>

text \<open>
  A world in which no request has been made yet, and an environment in which every URL
  parses to the given authority and every HEAD and GET request has the given outcome and
  takes one second.
\<close>

definition example_world :: world where
  "example_world = \<lparr>clock = 1000, domain_last_request = (\<lambda>d. 0), requests_sent = []\<rparr>"

definition fixed_env :: "py_error + string \<Rightarrow> http_outcome \<Rightarrow> http_outcome \<Rightarrow> env" where
  "fixed_env netloc head_outcome get_outcome =
     \<lparr>urlparse_netloc = (\<lambda>url. netloc),
      http_request = (\<lambda>m url. case m of HEAD \<Rightarrow> head_outcome | GET \<Rightarrow> get_outcome),
      http_latency = (\<lambda>m url. 1)\<rparr>"

definition example_soup :: "tag list" where
  "example_soup =
     [\<lparr>tag_name = ''link'', attrs = [(''rel'', ''stylesheet''), (''href'', ''https://cdn.example.org/s.css'')]\<rparr>,
      \<lparr>tag_name = ''a'', attrs = [(''href'', ''#top'')]\<rparr>,
      \<lparr>tag_name = ''img'', attrs = [(''src'', ''img/x.png''), (''alt'', ''x'')]\<rparr>,
      \<lparr>tag_name = ''a'', attrs = [(''href'', ''https://example.org/a'')]\<rparr>,
      \<lparr>tag_name = ''img'', attrs = [(''src'', ''data:image/png;base64,AAAA'')]\<rparr>,
      \<lparr>tag_name = ''a'', attrs = [(''name'', ''anchor'')]\<rparr>]"

definition no_counts :: report_counts where
  "no_counts = \<lparr>broken_count = 0, browser_working_count = 0, definitely_broken_count = 0\<rparr>"

subsection \<open>Facts about ranges and slices\<close>

lemma py_range_unfold:
  "0 < step \<Longrightarrow> start < stop \<Longrightarrow>
   py_range start stop step = start # py_range (start + step) stop step"
  by (subst py_range.simps) simp

lemma py_range_empty: "stop \<le> start \<Longrightarrow> py_range start stop step = []"
  by (subst py_range.simps) simp

lemma concat_slices:
  "0 < step \<Longrightarrow>
   concat (map (\<lambda>i. py_slice xs i (i + step)) (py_range start (length xs) step)) = drop start xs"
proof (induction start "length xs" step rule: py_range.induct)
  case (1 start step)
  show ?case
  proof (cases "length xs \<le> start")
    case True
    then show ?thesis by (simp add: py_range_empty)
  next
    case False
    with 1 have IH:
      "concat (map (\<lambda>i. py_slice xs i (i + step)) (py_range (start + step) (length xs) step))
         = drop (start + step) xs"
      by simp
    have "drop (start + step) xs = drop step (drop start xs)"
      by (simp add: add.commute)
    then have "drop start xs = take step (drop start xs) @ drop (start + step) xs"
      by (simp only: append_take_drop_id)
    with False 1(2) IH show ?thesis
      by (simp add: py_range_unfold py_slice_def)
  qed
qed

lemma div_add_step: "0 < (step::nat) \<Longrightarrow> (m + step) div step = Suc (m div step)"
  by (simp add: div_add_self2)

lemma length_py_range:
  "0 < step \<Longrightarrow> length (py_range start stop step) = (stop - start + step - 1) div step"
proof (induction start stop step rule: py_range.induct)
  case (1 start stop step)
  show ?case
  proof (cases "stop \<le> start")
    case True
    with 1(2) show ?thesis by (simp add: py_range_empty)
  next
    case False
    with 1 have IH:
      "length (py_range (start + step) stop step) = (stop - (start + step) + step - 1) div step"
      by simp
    have "(stop - start + step - 1) div step = Suc ((stop - (start + step) + step - 1) div step)"
    proof (cases "stop < start + step")
      case True
      with False have "step \<le> stop - start + step - 1"
        and "stop - start + step - 1 < step + step"
        by linarith+
      then have "step * 1 \<le> stop - start + step - 1"
        and "stop - start + step - 1 < step * Suc 1"
        by simp_all
      then have "(stop - start + step - 1) div step = 1"
        by (rule div_nat_eqI)
      moreover from True have "(stop - (start + step) + step - 1) div step = 0"
        using 1(2) by simp
      ultimately show ?thesis by simp
    next
      case far: False
      define m where "m = stop - (start + step) + step - 1"
      from far False 1(2) have "stop - start + step - 1 = m + step"
        unfolding m_def by linarith
      moreover from 1(2) have "(m + step) div step = Suc (m div step)"
        by (rule div_add_step)
      ultimately show ?thesis
        unfolding m_def by simp
    qed
    with False 1(2) IH show ?thesis
      by (simp add: py_range_unfold)
  qed
qed

lemma nth_py_range:
  "0 < step \<Longrightarrow> k < length (py_range start stop step) \<Longrightarrow>
   py_range start stop step ! k = start + k * step"
proof (induction start stop step arbitrary: k rule: py_range.induct)
  case (1 start stop step)
  show ?case
  proof (cases "stop \<le> start")
    case True
    with 1(3) show ?thesis by (simp add: py_range_empty)
  next
    case False
    with 1(2) have eq: "py_range start stop step = start # py_range (start + step) stop step"
      by (simp add: py_range_unfold)
    show ?thesis
    proof (cases k)
      case 0
      with eq show ?thesis by simp
    next
      case (Suc j)
      with 1(3) eq have "j < length (py_range (start + step) stop step)" by simp
      with 1(1)[of j] False 1(2)
      have "py_range (start + step) stop step ! j = start + step + j * step"
        by simp
      with eq Suc show ?thesis by simp
    qed
  qed
qed

lemma length_split_batches:
  "length (split_batches xs) = (length xs + 19) div 20"
  by (simp add: split_batches_def batch_size_def length_py_range)

lemma nth_split_batches:
  assumes "k < length (split_batches xs)"
  shows "split_batches xs ! k = take 20 (drop (20 * k) xs)"
proof -
  from assms have k: "k < length (py_range 0 (length xs) 20)"
    by (simp add: split_batches_def batch_size_def)
  then have "py_range 0 (length xs) 20 ! k = k * 20"
    by (simp add: nth_py_range)
  with k show ?thesis
    by (simp add: split_batches_def batch_size_def py_slice_def mult.commute)
qed

lemma concat_split_batches: "concat (split_batches xs) = xs"
  using concat_slices [of 20 xs 0] by (simp add: split_batches_def batch_size_def)

lemma split_batches_chunk_bounds:
  assumes "k < length (split_batches xs)"
  shows "20 * k < length xs"
    and "Suc k < length (split_batches xs) \<Longrightarrow> 20 * k + 20 \<le> length xs"
proof -
  from assms have "k < (length xs + 19) div 20"
    by (simp add: length_split_batches)
  then show "20 * k < length xs" by linarith
next
  assume "Suc k < length (split_batches xs)"
  then have "Suc k < (length xs + 19) div 20"
    by (simp add: length_split_batches)
  then show "20 * k + 20 \<le> length xs" by linarith
qed

lemma distinct_concat_unique_index:
  assumes "distinct (concat bs)" and "i < length bs" and "j < length bs"
    and "u \<in> set (bs ! i)" and "u \<in> set (bs ! j)"
  shows "i = j"
  using assms
proof (induction bs arbitrary: i j)
  case Nil
  then show ?case by simp
next
  case (Cons b bs)
  show ?case
  proof (cases i; cases j)
    fix i' j' assume ij: "i = Suc i'" "j = Suc j'"
    with Cons.prems have "i' = j'"
      by (intro Cons.IH) auto
    with ij show ?thesis by simp
  next
    fix j' assume ij: "i = 0" "j = Suc j'"
    with Cons.prems have "u \<in> set b" and "bs ! j' \<in> set bs" and "u \<in> set (bs ! j')"
      by simp_all
    then have "u \<in> set b" and "u \<in> set (concat bs)"
      by auto
    with Cons.prems(1) show ?thesis by auto
  next
    fix i' assume ij: "i = Suc i'" "j = 0"
    with Cons.prems have "u \<in> set b" and "bs ! i' \<in> set bs" and "u \<in> set (bs ! i')"
      by simp_all
    then have "u \<in> set b" and "u \<in> set (concat bs)"
      by auto
    with Cons.prems(1) show ?thesis by auto
  qed simp
qed

subsection \<open>Facts about the marker phrases\<close>

text \<open>
  The checker appends its remarks after a blank and an opening parenthesis. Neither marker
  phrase has a parenthesis or ends in a blank, so a marker inside the extended reason lies
  inside the original reason or inside the appended remark.
\<close>

lemma sublist_append_paren:
  assumes "CHR ''('' \<notin> set p" and "p \<noteq> []" and "last p \<noteq> CHR '' ''"
    and "\<not> sublist p (CHR '' '' # CHR ''('' # rest)"
  shows "sublist p (r @ CHR '' '' # CHR ''('' # rest) \<longleftrightarrow> sublist p r"
proof
  assume "sublist p (r @ CHR '' '' # CHR ''('' # rest)"
  then consider "sublist p r" | "sublist p (CHR '' '' # CHR ''('' # rest)"
    | xs1 xs2 where "p = xs1 @ xs2" "suffix xs1 r" "prefix xs2 (CHR '' '' # CHR ''('' # rest)"
    unfolding sublist_append by blast
  then show "sublist p r"
  proof cases
    case 1
    then show ?thesis .
  next
    case 2
    with assms(4) show ?thesis by simp
  next
    case 3
    show ?thesis
    proof (cases xs2)
      case Nil
      with 3 show ?thesis by auto
    next
      case (Cons c cs)
      note outer = Cons
      show ?thesis
      proof (cases cs)
        case Nil
        with outer 3 have "last p = CHR '' ''" by (simp add: prefix_Cons)
        with assms(3) show ?thesis by simp
      next
        case (Cons d ds)
        with outer 3 have "CHR ''('' \<in> set p" by (auto simp: prefix_Cons)
        with assms(1) show ?thesis by simp
      qed
    qed
  qed
next
  assume "sublist p r"
  then show "sublist p (r @ CHR '' '' # CHR ''('' # rest)"
    by (simp add: sublist_append)
qed

lemma works_marker_HEAD_only:
  "str_contains ''works with browser headers'' (reason @ '' (HEAD only, may work in browser)'')
     = str_contains ''works with browser headers'' reason"
  unfolding str_contains_def
  by (rule sublist_append_paren) (simp_all add: sublist_code)

lemma works_marker_GET_only:
  "str_contains ''works with browser headers'' (reason @ '' (GET only)'')
     = str_contains ''works with browser headers'' reason"
  unfolding str_contains_def
  by (rule sublist_append_paren) (simp_all add: sublist_code)

lemma maybe_marker_GET_only:
  "str_contains ''may work in browser'' (reason @ '' (GET only)'')
     = str_contains ''may work in browser'' reason"
  unfolding str_contains_def
  by (rule sublist_append_paren) (simp_all add: sublist_code)

lemma maybe_marker_HEAD_only:
  "str_contains ''may work in browser'' (reason @ '' (HEAD only, may work in browser)'')"
  unfolding str_contains_def
  by (simp add: sublist_append sublist_code)

lemma works_marker_appended:
  "str_contains ''works with browser headers'' (reason @ '' (works with browser headers)'')"
  unfolding str_contains_def
  by (simp add: sublist_append sublist_code)

subsection \<open>The paths of the rate-limited check\<close>

lemma check_url_urlparse_error:
  "urlparse_netloc e url = Inl err \<Longrightarrow> check_url_with_rate_limit e url w = Inl err"
  by (simp add: check_url_with_rate_limit_def)

lemma check_url_head_ok:
  assumes "urlparse_netloc e url = Inr domain"
    and "http_request e HEAD url = Response status_code reason"
    and "status_code \<noteq> 405" and "status_code \<noteq> 406"
  shows "check_url_with_rate_limit e url w =
     Inr ((Some status_code, reason),
          record_request_time domain (snd (send_request e HEAD url (enforce_delay domain w))))"
  using assms by (simp add: check_url_with_rate_limit_def send_request_def Let_def)

lemma check_url_head_rejected_get_response:
  assumes "urlparse_netloc e url = Inr domain"
    and "http_request e HEAD url = Response status_code reason"
    and "status_code = 405 \<or> status_code = 406"
    and "http_request e GET url = Response status_code2 reason2"
  shows "check_url_with_rate_limit e url w =
     Inr ((Some status_code2,
           if status_code2 = 200 then reason2 @ '' (works with browser headers)'' else reason2),
          snd (send_request e GET url (record_request_time domain
            (snd (send_request e HEAD url (enforce_delay domain w))))))"
  using assms by (auto simp add: check_url_with_rate_limit_def send_request_def Let_def)

lemma check_url_head_rejected_get_failed:
  assumes "urlparse_netloc e url = Inr domain"
    and "http_request e HEAD url = Response status_code reason"
    and "status_code = 405 \<or> status_code = 406"
    and "http_request e GET url = RequestException e1"
  shows "check_url_with_rate_limit e url w =
     Inr ((Some status_code, reason @ '' (HEAD only, may work in browser)''),
          snd (send_request e GET url (record_request_time domain
            (snd (send_request e HEAD url (enforce_delay domain w))))))"
  using assms by (auto simp add: check_url_with_rate_limit_def send_request_def Let_def)

lemma check_url_head_failed_get_response:
  assumes "urlparse_netloc e url = Inr domain"
    and "http_request e HEAD url = RequestException e1"
    and "http_request e GET url = Response status_code2 reason2"
  shows "check_url_with_rate_limit e url w =
     Inr ((Some status_code2, reason2 @ '' (GET only)''),
          record_request_time domain (snd (send_request e GET url
            (snd (send_request e HEAD url (enforce_delay domain w))))))"
  using assms by (simp add: check_url_with_rate_limit_def send_request_def Let_def)

lemma check_url_head_failed_get_failed:
  assumes "urlparse_netloc e url = Inr domain"
    and "http_request e HEAD url = RequestException e1"
    and "http_request e GET url = RequestException e2"
  shows "check_url_with_rate_limit e url w =
     Inr ((None, e2),
          record_request_time domain (snd (send_request e GET url
            (snd (send_request e HEAD url (enforce_delay domain w))))))"
  using assms by (simp add: check_url_with_rate_limit_def send_request_def Let_def)

lemma clock_enforce_delay:
  "clock (enforce_delay domain w) =
     max (clock w) (domain_last_request w domain + get_domain_delay domain)"
  by (simp add: enforce_delay_def Let_def max_def)

lemma frame_enforce_delay [simp]:
  "domain_last_request (enforce_delay domain w) = domain_last_request w"
  "requests_sent (enforce_delay domain w) = requests_sent w"
  by (simp_all add: enforce_delay_def Let_def)

lemma send_request_fields [simp]:
  "clock (snd (send_request e m url w)) = clock w + http_latency e m url"
  "domain_last_request (snd (send_request e m url w)) = domain_last_request w"
  "requests_sent (snd (send_request e m url w)) = requests_sent w @ [(m, url)]"
  by (simp_all add: send_request_def)

lemma record_request_time_fields [simp]:
  "clock (record_request_time domain w) = clock w"
  "domain_last_request (record_request_time domain w) domain = clock w"
  "d \<noteq> domain \<Longrightarrow> domain_last_request (record_request_time domain w) d = domain_last_request w d"
  "requests_sent (record_request_time domain w) = requests_sent w"
  by (simp_all add: record_request_time_def)

text \<open>Unfolding the check on a concrete environment.\<close>

lemmas run_simps = check_url_with_rate_limit_def fixed_env_def example_world_def send_request_def
  record_request_time_def enforce_delay_def get_domain_delay_def str_contains_def sublist_code
  Let_def

subsection \<open>Results of the check and their place in the report\<close>

lemmas report_simps = report_link_def is_failing_def str_contains_def sublist_code no_counts_def

lemma report_link_failing_url:
  assumes "link_type \<noteq> ''local_image''"
    and "map_of url_stat url = Some (status_code, reason)"
    and "is_failing status_code"
  shows "report_link local_file_status url_stat (link_type, url) (file_issues, c) =
     Inr (file_issues @
            [(link_type, url, Status status_code, reason,
              if str_contains ''works with browser headers'' reason then ''browser_ok''
              else if str_contains ''may work in browser'' reason then ''maybe_ok''
              else ''broken'')],
          if str_contains ''works with browser headers'' reason
             \<or> str_contains ''may work in browser'' reason
          then c\<lparr>browser_working_count := browser_working_count c + 1,
                  broken_count := broken_count c + 1\<rparr>
          else c\<lparr>definitely_broken_count := definitely_broken_count c + 1,
                  broken_count := broken_count c + 1\<rparr>)"
  using assms by (simp add: report_link_def)

lemma report_link_passing_url:
  assumes "link_type \<noteq> ''local_image''"
    and "map_of url_stat url = Some (status_code, reason)"
    and "\<not> is_failing status_code"
  shows "report_link local_file_status url_stat (link_type, url) st = Inr st"
  using assms by (cases st) (simp add: report_link_def)


lemma check_url_result_cases:
  assumes "check_url_with_rate_limit e url w = Inr ((status_code, reason), w')"
  obtains
    (head_ok) s r where "http_request e HEAD url = Response s r" "s \<noteq> 405" "s \<noteq> 406"
      "status_code = Some s" "reason = r"
  | (get_200) s r r2 where "http_request e HEAD url = Response s r" "s = 405 \<or> s = 406"
      "http_request e GET url = Response 200 r2"
      "status_code = Some 200" "reason = r2 @ '' (works with browser headers)''"
  | (get_other) s r s2 r2 where "http_request e HEAD url = Response s r" "s = 405 \<or> s = 406"
      "http_request e GET url = Response s2 r2" "s2 \<noteq> 200"
      "status_code = Some s2" "reason = r2"
  | (head_only) s r t where "http_request e HEAD url = Response s r" "s = 405 \<or> s = 406"
      "http_request e GET url = RequestException t"
      "status_code = Some s" "reason = r @ '' (HEAD only, may work in browser)''"
  | (get_only) t s2 r2 where "http_request e HEAD url = RequestException t"
      "http_request e GET url = Response s2 r2"
      "status_code = Some s2" "reason = r2 @ '' (GET only)''"
  | (failed) t t2 where "http_request e HEAD url = RequestException t"
      "http_request e GET url = RequestException t2"
      "status_code = None" "reason = t2"
proof -
  from assms obtain domain where parse: "urlparse_netloc e url = Inr domain"
    by (cases "urlparse_netloc e url") (simp_all add: check_url_with_rate_limit_def)
  show thesis
  proof (cases "http_request e HEAD url")
    case head: (Response s r)
    show ?thesis
    proof (cases "s = 405 \<or> s = 406")
      case rejected: True
      show ?thesis
      proof (cases "http_request e GET url")
        case get: (Response s2 r2)
        from check_url_head_rejected_get_response [OF parse head rejected get, of w] assms
        have "status_code = Some s2"
          and "reason = (if s2 = 200 then r2 @ '' (works with browser headers)'' else r2)"
          by simp_all
        with head rejected get show ?thesis
          by (cases "s2 = 200") (auto intro: get_200 get_other)
      next
        case get: (RequestException t)
        from check_url_head_rejected_get_failed [OF parse head rejected get, of w] assms
        have "status_code = Some s" and "reason = r @ '' (HEAD only, may work in browser)''"
          by simp_all
        with head rejected get show ?thesis by (rule head_only)
      qed
    next
      case False
      with check_url_head_ok [OF parse head, of w] assms
      have "status_code = Some s" and "reason = r"
        by simp_all
      with head False show ?thesis by (auto intro: head_ok)
    qed
  next
    case head: (RequestException t)
    show ?thesis
    proof (cases "http_request e GET url")
      case get: (Response s2 r2)
      from check_url_head_failed_get_response [OF parse head get, of w] assms
      have "status_code = Some s2" and "reason = r2 @ '' (GET only)''"
        by simp_all
      with head get show ?thesis by (rule get_only)
    next
      case get: (RequestException t2)
      from check_url_head_failed_get_failed [OF parse head get, of w] assms
      have "status_code = None" and "reason = t2"
        by simp_all
      with head get show ?thesis by (rule failed)
    qed
  qed
qed

lemma texts_free_ofD:
  assumes "texts_free_of marker e url"
  shows "http_request e m url = Response s r \<Longrightarrow> \<not> str_contains marker r"
    and "http_request e m url = RequestException t \<Longrightarrow> \<not> str_contains marker t"
proof -
  have "m \<in> {HEAD, GET}" by (cases m) simp_all
  with assms have *: "case http_request e m url of
          Response s r \<Rightarrow> \<not> str_contains marker r
        | RequestException t \<Rightarrow> \<not> str_contains marker t"
    unfolding texts_free_of_def by blast
  from * show "http_request e m url = Response s r \<Longrightarrow> \<not> str_contains marker r" by simp
  from * show "http_request e m url = RequestException t \<Longrightarrow> \<not> str_contains marker t" by simp
qed

lemma marker_implies_200:
  assumes run: "check_url_with_rate_limit e url w = Inr ((status_code, reason), w')"
    and free: "texts_free_of ''works with browser headers'' e url"
    and marked: "str_contains ''works with browser headers'' reason"
  shows "status_code = Some 200"
  using run
proof (cases rule: check_url_result_cases)
  case (head_ok s r)
  with texts_free_ofD(1) [OF free, of HEAD s r] marked show ?thesis by simp
next
  case (get_200 s r r2)
  then show ?thesis by simp
next
  case (get_other s r s2 r2)
  with texts_free_ofD(1) [OF free, of GET s2 r2] marked show ?thesis by simp
next
  case (head_only s r t)
  with texts_free_ofD(1) [OF free, of HEAD s r] marked show ?thesis
    by (simp add: works_marker_HEAD_only)
next
  case (get_only t s2 r2)
  with texts_free_ofD(1) [OF free, of GET s2 r2] marked show ?thesis
    by (simp add: works_marker_GET_only)
next
  case (failed t t2)
  with texts_free_ofD(2) [OF free, of GET t2] marked show ?thesis by simp
qed

lemma report_link_new_issue:
  assumes "report_link local_file_status url_stat (link_type, url) (file_issues, c) = Inr (issues, c')"
    and "link_type \<noteq> ''local_image'' \<Longrightarrow> map_of url_stat url = Some (status_code, reason)"
    and "\<not> (is_failing status_code \<and> str_contains ''works with browser headers'' reason)"
  shows "\<exists>new. issues = file_issues @ new
           \<and> ''browser_ok'' \<notin> (\<lambda>(link_type, u, status, reason, category). category) ` set new"
proof (cases "link_type = ''local_image''")
  case True
  with assms(1) show ?thesis
    by (auto simp: report_link_def split: option.splits if_splits)
next
  case False
  with assms show ?thesis
    by (auto simp: report_link_def split: option.splits if_splits)
qed

subsection \<open>The extractor's loops\<close>

lemma a_loop_eq:
  "a_loop (find_all ''a'' ''href'' soup) links
     = Inr (links @ List.map_filter expected_reference (tags_named ''a'' soup))"
proof (induction soup arbitrary: links)
  case Nil
  then show ?case by (simp add: find_all_def tags_named_def List.map_filter_simps)
next
  case (Cons t soup)
  show ?case
  proof (cases "tag_name t = ''a''")
    case False
    with Cons.IH [of links] show ?thesis
      by (simp add: find_all_def tags_named_def)
  next
    case True
    show ?thesis
    proof (cases "map_of (attrs t) ''href''")
      case None
      with True Cons.IH [of links] show ?thesis
        by (simp add: find_all_def tags_named_def List.map_filter_simps expected_reference_def)
    next
      case (Some href)
      with True Cons.IH [of links] Cons.IH [of "links @ [(''link'', href)]"] show ?thesis
        by (simp add: find_all_def tags_named_def List.map_filter_simps expected_reference_def
            tag_get_def)
    qed
  qed
qed

lemma img_loop_eq:
  "img_loop (find_all ''img'' ''src'' soup) links
     = Inr (links @ List.map_filter expected_reference (tags_named ''img'' soup))"
proof (induction soup arbitrary: links)
  case Nil
  then show ?case by (simp add: find_all_def tags_named_def List.map_filter_simps)
next
  case (Cons t soup)
  show ?case
  proof (cases "tag_name t = ''img''")
    case False
    with Cons.IH [of links] show ?thesis
      by (simp add: find_all_def tags_named_def)
  next
    case True
    show ?thesis
    proof (cases "map_of (attrs t) ''src''")
      case None
      with True Cons.IH [of links] show ?thesis
        by (simp add: find_all_def tags_named_def List.map_filter_simps expected_reference_def)
    next
      case (Some src)
      with True Cons.IH [of links] Cons.IH [of "links @ [(''image'', src)]"]
        Cons.IH [of "links @ [(''local_image'', src)]"] show ?thesis
        by (simp add: find_all_def tags_named_def List.map_filter_simps expected_reference_def
            tag_get_def)
    qed
  qed
qed

lemma link_loop_eq:
  "link_loop (find_all ''link'' ''href'' soup) links
     = Inr (links @ List.map_filter expected_reference (tags_named ''link'' soup))"
proof (induction soup arbitrary: links)
  case Nil
  then show ?case by (simp add: find_all_def tags_named_def List.map_filter_simps)
next
  case (Cons t soup)
  show ?case
  proof (cases "tag_name t = ''link''")
    case False
    with Cons.IH [of links] show ?thesis
      by (simp add: find_all_def tags_named_def)
  next
    case True
    show ?thesis
    proof (cases "map_of (attrs t) ''href''")
      case None
      with True Cons.IH [of links] show ?thesis
        by (simp add: find_all_def tags_named_def List.map_filter_simps expected_reference_def)
    next
      case (Some href)
      with True Cons.IH [of links] Cons.IH [of "links @ [(''resource'', href)]"] show ?thesis
        by (simp add: find_all_def tags_named_def List.map_filter_simps expected_reference_def
            tag_get_def)
    qed
  qed
qed

lemma extract_links_eq:
  "extract_links_from_html (Inr soup)
     = List.map_filter expected_reference (tags_named ''a'' soup)
       @ List.map_filter expected_reference (tags_named ''img'' soup)
       @ List.map_filter expected_reference (tags_named ''link'' soup)"
  by (simp add: extract_links_from_html_def extract_links_body_def a_loop_eq img_loop_eq link_loop_eq)

lemma length_map_filter_le: "length (List.map_filter f xs) \<le> length xs"
  by (induction xs) (auto simp: List.map_filter_simps split: option.splits)

lemma length_map_filter_eq:
  "length (List.map_filter f xs) = length (filter (\<lambda>x. f x \<noteq> None) xs)"
  by (induction xs) (auto simp: List.map_filter_simps split: option.splits)

lemma count_three_names:
  "length (filter (\<lambda>t. tag_name t = ''a'' \<or> tag_name t = ''img'' \<or> tag_name t = ''link'') soup)
     = length (tags_named ''a'' soup) + length (tags_named ''img'' soup)
       + length (tags_named ''link'' soup)"
  by (induction soup) (auto simp: tags_named_def)

lemma expected_reference_name:
  "expected_reference t \<noteq> None \<Longrightarrow>
   tag_name t = ''a'' \<or> tag_name t = ''img'' \<or> tag_name t = ''link''"
  by (auto simp: expected_reference_def split: if_splits)

lemma count_expected_references:
  "length (filter (\<lambda>t. expected_reference t \<noteq> None) soup)
     = length (filter (\<lambda>t. expected_reference t \<noteq> None) (tags_named ''a'' soup))
       + length (filter (\<lambda>t. expected_reference t \<noteq> None) (tags_named ''img'' soup))
       + length (filter (\<lambda>t. expected_reference t \<noteq> None) (tags_named ''link'' soup))"
proof (induction soup)
  case Nil
  then show ?case by (simp add: tags_named_def)
next
  case (Cons t soup)
  show ?case
  proof (cases "expected_reference t = None")
    case True
    with Cons show ?thesis by (simp add: tags_named_def)
  next
    case False
    from expected_reference_name [OF this] False Cons show ?thesis
      by (auto simp: tags_named_def)
  qed
qed

lemma expected_reference_kind:
  assumes "expected_reference t = Some (kind, target)"
  shows "(kind = ''link'' \<and> tag_name t = ''a'' \<and> startswith target ''http'')
       \<or> (kind = ''image'' \<and> tag_name t = ''img'' \<and> startswith target ''http'')
       \<or> (kind = ''local_image'' \<and> tag_name t = ''img'' \<and> \<not> startswith target ''http''
            \<and> \<not> startswith target ''#'' \<and> \<not> startswith target ''data:'')
       \<or> (kind = ''resource'' \<and> tag_name t = ''link'' \<and> startswith target ''http'')"
  using assms
  by (auto simp: expected_reference_def split: if_splits option.splits)

lemmas extract_simps = extract_links_from_html_def extract_links_body_def find_all_def
  tag_get_def startswith_def

subsection \<open>Keys of the dictionaries\<close>

lemma keys_dict_update:
  "fst ` set (dict_update d other) = fst ` set d \<union> fst ` set other"
  unfolding dict_update_def
proof (induction other arbitrary: d)
  case Nil
  then show ?case by simp
next
  case (Cons kv other)
  obtain k v where kv: "kv = (k, v)" by (cases kv)
  have "fst ` set (fold (\<lambda>(k, v). AList.update k v) other (AList.update k v d))
      = fst ` set (AList.update k v d) \<union> fst ` set other"
    by (rule Cons.IH)
  with kv show ?case
    by (auto simp: dom_update)
qed

lemma keys_merge_completed:
  "fst ` set (url_status (merge_completed futures s))
     = fst ` set (url_status s) \<union> (\<Union>b \<in> {b. Inr b \<in> set futures}. fst ` set b)"
proof (induction futures s rule: merge_completed.induct)
  case (1 s)
  then show ?case by simp
next
  case (2 batch_results futures s)
  then show ?case
    by (simp add: Let_def keys_dict_update) blast
next
  case (3 e futures s)
  then show ?case by simp
qed

lemma completed_batches_merge_completed:
  "completed_batches (merge_completed (map Inr bs) s) = completed_batches s + length bs"
  by (induction bs arbitrary: s) (simp_all add: Let_def)

lemma keys_check_url_batch_loop:
  "check_url_batch_loop e urls results w = Inr (res, w') \<Longrightarrow>
   fst ` set res = fst ` set results \<union> set urls"
proof (induction urls arbitrary: results w)
  case Nil
  then show ?case by simp
next
  case (Cons url urls)
  from Cons.prems obtain status_code reason w1 where
    step: "check_url_with_rate_limit e url w = Inr ((status_code, reason), w1)"
    and rest: "check_url_batch_loop e urls (AList.update url (status_code, reason) results) w1
        = Inr (res, w')"
    by (auto split: sum.splits)
  from Cons.IH [OF rest] show ?case
    by (auto simp: dom_update)
qed

lemma keys_check_url_batch:
  "check_url_batch e urls w = Inr (res, w') \<Longrightarrow> fst ` set res = set urls"
  unfolding check_url_batch_def by (drule keys_check_url_batch_loop) simp

subsection \<open>From the check to the aggregate dictionary\<close>

text \<open>
  The result of a check does not depend on the clock or on earlier requests. So whatever
  the worlds the batches ran in and whatever the order they completed in, the aggregate
  dictionary maps every checked URL to the result the check gives for it: this is the
  entry the report looks up.
\<close>

lemma check_result_independent_of_world:
  assumes "check_url_with_rate_limit e url w = Inr (r, w1)"
  shows "\<exists>w2. check_url_with_rate_limit e url w' = Inr (r, w2)"
proof -
  obtain status_code reason where r: "r = (status_code, reason)" by (cases r)
  from assms obtain domain where parse: "urlparse_netloc e url = Inr domain"
    by (cases "urlparse_netloc e url") (simp_all add: check_url_with_rate_limit_def)
  from assms [unfolded r] show ?thesis
  proof (cases rule: check_url_result_cases)
    case (head_ok s r')
    with check_url_head_ok [OF parse head_ok(1-3), of w'] r show ?thesis by simp
  next
    case (get_200 s r' r2)
    with check_url_head_rejected_get_response [OF parse get_200(1-3), of w'] r show ?thesis by simp
  next
    case (get_other s r' s2 r2)
    with check_url_head_rejected_get_response [OF parse get_other(1-3), of w'] r show ?thesis by simp
  next
    case (head_only s r' t)
    with check_url_head_rejected_get_failed [OF parse head_only(1-3), of w'] r show ?thesis by simp
  next
    case (get_only t s2 r2)
    with check_url_head_failed_get_response [OF parse get_only(1-2), of w'] r show ?thesis by simp
  next
    case (failed t t2)
    with check_url_head_failed_get_failed [OF parse failed(1-2), of w'] r show ?thesis by simp
  qed
qed

lemma lookup_check_url_batch_loop:
  assumes "check_url_batch_loop e urls results w = Inr (res, w')"
  shows "map_of res url =
     (if url \<in> set urls then
        (case check_url_with_rate_limit e url w0 of Inr (r, w1) \<Rightarrow> Some r | Inl err \<Rightarrow> None)
      else map_of results url)"
  using assms
proof (induction urls arbitrary: results w)
  case Nil
  then show ?case by simp
next
  case (Cons u urls)
  from Cons.prems obtain status_code reason w1 where
    step: "check_url_with_rate_limit e u w = Inr ((status_code, reason), w1)"
    and rest: "check_url_batch_loop e urls (AList.update u (status_code, reason) results) w1
        = Inr (res, w')"
    by (auto split: sum.splits)
  from check_result_independent_of_world [OF step, of w0]
  obtain w2 where at0: "check_url_with_rate_limit e u w0 = Inr ((status_code, reason), w2)"
    by blast
  from Cons.IH [OF rest] at0 show ?case
    by (auto simp: update_conv')
qed

lemma lookup_check_url_batch:
  assumes "check_url_batch e urls w = Inr (res, w')" and "url \<in> set urls"
  shows "\<exists>r w1. map_of res url = Some r \<and> check_url_with_rate_limit e url w0 = Inr (r, w1)"
proof -
  from assms(1) have loop: "check_url_batch_loop e urls [] w = Inr (res, w')"
    by (simp add: check_url_batch_def)
  from keys_check_url_batch [OF assms(1)] assms(2) have "url \<in> fst ` set res"
    by simp
  then have "map_of res url \<noteq> None"
    by (simp add: map_of_eq_None_iff)
  with lookup_check_url_batch_loop [OF loop, of url w0] assms(2) show ?thesis
    by (auto split: sum.splits)
qed

lemma lookup_dict_update:
  "map_of (dict_update d other) = map_of d ++ map_of (rev other)"
  unfolding dict_update_def
proof (induction other arbitrary: d)
  case Nil
  then show ?case by simp
next
  case (Cons kv other)
  obtain k' v' where kv: "kv = (k', v')" by (cases kv)
  have "map_of (fold (\<lambda>(k, v). AList.update k v) other (AList.update k' v' d))
      = map_of (AList.update k' v' d) ++ map_of (rev other)"
    by (rule Cons.IH)
  also have "\<dots> = (map_of d ++ [k' \<mapsto> v']) ++ map_of (rev other)"
    by (simp add: update_conv')
  also have "\<dots> = map_of d ++ map_of (rev (kv # other))"
    by (simp add: kv)
  finally show ?case by (simp add: kv)
qed

lemma lookup_merge_completed:
  assumes "\<forall>b. Inr b \<in> set futures \<longrightarrow> (\<forall>r'. map_of (rev b) url = Some r' \<longrightarrow> r' = r)"
  shows "map_of (url_status (merge_completed futures s)) url =
     (if \<exists>b. Inr b \<in> set futures \<and> url \<in> fst ` set b then Some r else map_of (url_status s) url)"
  using assms
proof (induction futures s rule: merge_completed.induct)
  case (1 s)
  then show ?case by simp
next
  case (2 batch_results futures s)
  let ?s' = "s\<lparr>url_status := dict_update (url_status s) batch_results,
              broken_url_count := broken_url_count s
                + length (filter (\<lambda>(url, (status, reason)). is_failing status) batch_results),
              completed_batches := completed_batches s + 1\<rparr>"
  from 2 have IH: "map_of (url_status (merge_completed futures ?s')) url =
     (if \<exists>b. Inr b \<in> set futures \<and> url \<in> fst ` set b then Some r else map_of (url_status ?s') url)"
    by (simp add: Let_def)
  have here: "map_of (url_status ?s') url =
     (if url \<in> fst ` set batch_results then Some r else map_of (url_status s) url)"
  proof (cases "map_of (rev batch_results) url")
    case None
    then have "url \<notin> fst ` set batch_results"
      by (simp add: map_of_eq_None_iff)
    with None show ?thesis
      by (simp add: lookup_dict_update map_add_def)
  next
    case (Some r')
    from 2(2) have "\<forall>r'. map_of (rev batch_results) url = Some r' \<longrightarrow> r' = r"
      by simp
    with Some have "r' = r" by blast
    moreover from Some have "url \<in> fst ` set batch_results"
      using map_of_eq_None_iff [of "rev batch_results" url] by auto
    ultimately show ?thesis using Some
      by (simp add: lookup_dict_update map_add_def)
  qed
  from IH here show ?case
    by (auto simp: Let_def)
next
  case (3 e futures s)
  then show ?case by simp
qed

lemma distinct_check_url_batch_loop:
  "check_url_batch_loop e urls results w = Inr (res, w') \<Longrightarrow>
   distinct (map fst results) \<Longrightarrow> distinct (map fst res)"
proof (induction urls arbitrary: results w)
  case Nil
  then show ?case by simp
next
  case (Cons u urls)
  from Cons.prems(1) obtain status_code reason w1 where
    rest: "check_url_batch_loop e urls (AList.update u (status_code, reason) results) w1
        = Inr (res, w')"
    by (auto split: sum.splits)
  from Cons.prems(2) have "distinct (map fst (AList.update u (status_code, reason) results))"
    by (rule distinct_update)
  with Cons.IH [OF rest] show ?case .
qed

lemma url_status_holds_check_result:
  assumes batches: "\<forall>b. Inr b \<in> set futures \<longrightarrow> (\<exists>urls w w'. check_url_batch e urls w = Inr (b, w'))"
    and b0: "Inr b0 \<in> set futures" and url: "url \<in> fst ` set b0"
  shows "\<exists>r w1. map_of (url_status (merge_completed futures initial_merge_state)) url = Some r
           \<and> check_url_with_rate_limit e url w0 = Inr (r, w1)"
proof -
  have each: "\<exists>r w1. map_of (rev b) url = Some r \<and> check_url_with_rate_limit e url w0 = Inr (r, w1)"
    if b: "Inr b \<in> set futures" and k: "url \<in> fst ` set b" for b
  proof -
    from batches b obtain urls w w' where run: "check_url_batch e urls w = Inr (b, w')"
      by blast
    then have "distinct (map fst b)"
      unfolding check_url_batch_def by (rule distinct_check_url_batch_loop) simp
    moreover from this have "distinct (map fst (rev b))"
      by (simp add: rev_map [symmetric])
    ultimately have "map_of (rev b) = map_of b"
      by (simp add: map_of_inject_set)
    moreover from keys_check_url_batch [OF run] k have "url \<in> set urls"
      by simp
    ultimately show ?thesis
      using lookup_check_url_batch [OF run, of url w0] by simp
  qed
  from each [OF b0 url] obtain r w1 where
    r: "map_of (rev b0) url = Some r" "check_url_with_rate_limit e url w0 = Inr (r, w1)"
    by blast
  have agree: "\<forall>b. Inr b \<in> set futures \<longrightarrow> (\<forall>r'. map_of (rev b) url = Some r' \<longrightarrow> r' = r)"
  proof (intro allI impI)
    fix b r' assume b: "Inr b \<in> set futures" and r': "map_of (rev b) url = Some r'"
    from r' have "url \<in> fst ` set b"
      using map_of_eq_None_iff [of "rev b" url] by auto
    from each [OF b this] r' r(2) show "r' = r"
      by auto
  qed
  from lookup_merge_completed [OF agree, of initial_merge_state] b0 url
  have "map_of (url_status (merge_completed futures initial_merge_state)) url = Some r"
    by auto
  with r(2) show ?thesis by blast
qed

subsection \<open>Claims\<close>

text \<open>
  C8. The batch scheduler cuts the list of unique URLs into consecutive chunks of 20, the
  last one possibly shorter (and never empty): the concatenation of the chunks is the
  original list, every chunk but the last has exactly 20 URLs, and when the URLs are
  unique (as the elements of a set are) every URL lies in exactly one chunk.
\<close>

theorem split_batches_partition:
  "concat (split_batches urls) = urls
   \<and> (\<forall>k < length (split_batches urls).
        split_batches urls ! k = take 20 (drop (20 * k) urls)
        \<and> 0 < length (split_batches urls ! k)
        \<and> length (split_batches urls ! k) \<le> 20
        \<and> (Suc k < length (split_batches urls) \<longrightarrow> length (split_batches urls ! k) = 20))
   \<and> (distinct urls \<longrightarrow>
        (\<forall>u \<in> set urls. \<exists>!k. k < length (split_batches urls) \<and> u \<in> set (split_batches urls ! k)))"
proof (intro conjI allI impI ballI)
  show "concat (split_batches urls) = urls"
    by (rule concat_split_batches)
next
  fix k assume k: "k < length (split_batches urls)"
  show "split_batches urls ! k = take 20 (drop (20 * k) urls)"
    using k by (rule nth_split_batches)
  show "0 < length (split_batches urls ! k)"
    using split_batches_chunk_bounds(1) [OF k] by (simp add: nth_split_batches [OF k])
  show "length (split_batches urls ! k) \<le> 20"
    by (simp add: nth_split_batches [OF k])
next
  fix k assume k: "k < length (split_batches urls)"
    and "Suc k < length (split_batches urls)"
  then show "length (split_batches urls ! k) = 20"
    using split_batches_chunk_bounds(2) [OF k] by (simp add: nth_split_batches [OF k])
next
  fix u assume d: "distinct urls" and u: "u \<in> set urls"
  from u have "u \<in> set (concat (split_batches urls))"
    by (simp add: concat_split_batches)
  then obtain b where "b \<in> set (split_batches urls)" and ub: "u \<in> set b"
    by auto
  then obtain k where k: "k < length (split_batches urls)" "u \<in> set (split_batches urls ! k)"
    by (metis in_set_conv_nth)
  moreover have "j = k"
    if "j < length (split_batches urls) \<and> u \<in> set (split_batches urls ! j)" for j
    using that k d
    by (intro distinct_concat_unique_index [of "split_batches urls" j k u])
      (simp_all add: concat_split_batches)
  ultimately show "\<exists>!k. k < length (split_batches urls) \<and> u \<in> set (split_batches urls ! k)"
    by blast
qed

theorem split_batches_partition_witness:
  "distinct [1..<23::nat]
   \<and> length (split_batches [1..<23::nat]) = 2
   \<and> length (split_batches [1..<23::nat] ! 0) = 20
   \<and> split_batches [1..<23::nat] ! 1 = [21, 22]
   \<and> (\<exists>!k. k < length (split_batches [1..<23::nat]) \<and> 21 \<in> set (split_batches [1..<23::nat] ! k))"
proof -
  let ?u = "[1..<23::nat]"
  have len: "length (split_batches ?u) = 2"
    by (simp add: length_split_batches)
  have d: "distinct ?u" and m: "(21::nat) \<in> set ?u"
    by simp_all
  note part = split_batches_partition [of ?u]
  from part have chunks: "\<forall>k < length (split_batches ?u).
        split_batches ?u ! k = take 20 (drop (20 * k) ?u)
        \<and> 0 < length (split_batches ?u ! k)
        \<and> length (split_batches ?u ! k) \<le> 20
        \<and> (Suc k < length (split_batches ?u) \<longrightarrow> length (split_batches ?u ! k) = 20)"
    by blast
  from chunks len have c0: "length (split_batches ?u ! 0) = 20"
    by simp
  from chunks len have "split_batches ?u ! 1 = take 20 (drop (20 * 1) ?u)"
    by simp
  also have "\<dots> = [21, 22]"
    by code_simp
  finally have c1: "split_batches ?u ! 1 = [21, 22]" .
  from part d m have u: "\<exists>!k. k < length (split_batches ?u) \<and> 21 \<in> set (split_batches ?u ! k)"
    by blast
  from d len c0 c1 u show ?thesis by blast
qed



text \<open>
  C1. The claim: a URL answered 405 on HEAD and 200 on GET is put in the report under
  "browser\_ok". The code at such a URL: the check returns status 200 with the reason
  "OK (works with browser headers)"; the batch stores it and the merge keeps it; the
  report loop only classifies results whose status is \<^verbatim>\<open>None\<close> or at least 400, so the
  URL gets no issue and no category at all (it is not "broken", and not "browser\_ok").
\<close>

theorem head_405_get_200_not_reported:
  "check_url_batch
     (fixed_env (Inr ''example.org'') (Response 405 ''Method Not Allowed'') (Response 200 ''OK''))
     [''http://example.org/a''] example_world
     = Inr ([(''http://example.org/a'', (Some 200, ''OK (works with browser headers)''))],
            \<lparr>clock = 1002, domain_last_request = (\<lambda>d. 0)(''example.org'' := 1001),
             requests_sent = [(HEAD, ''http://example.org/a''), (GET, ''http://example.org/a'')]\<rparr>)
   \<and> url_status (merge_completed
         [Inr [(''http://example.org/a'', (Some 200, ''OK (works with browser headers)''))]]
         initial_merge_state)
       = [(''http://example.org/a'', (Some 200, ''OK (works with browser headers)''))]
   \<and> report_links []
         [(''http://example.org/a'', (Some 200, ''OK (works with browser headers)''))]
         [(''link'', ''http://example.org/a'')] ([], no_counts)
       = Inr ([], no_counts)"
proof -
  have "check_url_batch
     (fixed_env (Inr ''example.org'') (Response 405 ''Method Not Allowed'') (Response 200 ''OK''))
     [''http://example.org/a''] example_world
     = Inr ([(''http://example.org/a'', (Some 200, ''OK (works with browser headers)''))],
            \<lparr>clock = 1002, domain_last_request = (\<lambda>d. 0)(''example.org'' := 1001),
             requests_sent = [(HEAD, ''http://example.org/a''), (GET, ''http://example.org/a'')]\<rparr>)"
    by (simp add: check_url_batch_def run_simps)
  moreover have "url_status (merge_completed
         [Inr [(''http://example.org/a'', (Some 200, ''OK (works with browser headers)''))]]
         initial_merge_state)
       = [(''http://example.org/a'', (Some 200, ''OK (works with browser headers)''))]"
    by (simp add: initial_merge_state_def dict_update_def)
  moreover have "report_links []
         [(''http://example.org/a'', (Some 200, ''OK (works with browser headers)''))]
         [(''link'', ''http://example.org/a'')] ([], no_counts)
       = Inr ([], no_counts)"
    by (simp add: report_simps)
  ultimately show ?thesis by blast
qed




text \<open>
  C7, as stated, fails when the server's reason phrase for the 405 itself contains
  "works with browser headers": the report tests for that phrase first and files the URL
  under "browser\_ok".
\<close>

theorem head_rejected_get_failed_counterexample:
  "check_url_with_rate_limit
     (fixed_env (Inr ''example.org'') (Response 405 ''works with browser headers'')
        (RequestException ''timed out''))
     ''http://example.org/a'' example_world
     = Inr ((Some 405, ''works with browser headers (HEAD only, may work in browser)''),
            \<lparr>clock = 1002, domain_last_request = (\<lambda>d. 0)(''example.org'' := 1001),
             requests_sent = [(HEAD, ''http://example.org/a''), (GET, ''http://example.org/a'')]\<rparr>)
   \<and> report_link []
         [(''http://example.org/a'',
           (Some 405, ''works with browser headers (HEAD only, may work in browser)''))]
         (''link'', ''http://example.org/a'') ([], no_counts)
       = Inr ([(''link'', ''http://example.org/a'', Status (Some 405),
                ''works with browser headers (HEAD only, may work in browser)'', ''browser_ok'')],
              \<lparr>broken_count = 1, browser_working_count = 1, definitely_broken_count = 0\<rparr>)"
  by (simp add: run_simps report_simps)

text \<open>
  C7, amended. For every URL whose HEAD request is answered 405 or 406 and whose GET retry
  fails with a transport error, the check returns the HEAD status with the reason
  extended by "(HEAD only, may work in browser)"; if the HEAD reason phrase does not contain
  "works with browser headers", the report files the URL under "maybe\_ok".
\<close>

theorem head_rejected_get_failed_maybe_ok:
  assumes "urlparse_netloc e url = Inr domain"
    and "http_request e HEAD url = Response status_code reason"
    and "status_code = 405 \<or> status_code = 406"
    and "http_request e GET url = RequestException t"
    and "\<not> str_contains ''works with browser headers'' reason"
    and "link_type \<noteq> ''local_image''"
    and "map_of url_stat url = Some (Some status_code, reason @ '' (HEAD only, may work in browser)'')"
  shows "(\<exists>w'. check_url_with_rate_limit e url w
            = Inr ((Some status_code, reason @ '' (HEAD only, may work in browser)''), w'))
    \<and> str_contains ''may work in browser'' (reason @ '' (HEAD only, may work in browser)'')
    \<and> report_link local_file_status url_stat (link_type, url) (file_issues, c)
        = Inr (file_issues @
                 [(link_type, url, Status (Some status_code),
                   reason @ '' (HEAD only, may work in browser)'', ''maybe_ok'')],
               c\<lparr>browser_working_count := browser_working_count c + 1,
                 broken_count := broken_count c + 1\<rparr>)"
proof (intro conjI)
  show "\<exists>w'. check_url_with_rate_limit e url w
            = Inr ((Some status_code, reason @ '' (HEAD only, may work in browser)''), w')"
    using check_url_head_rejected_get_failed [OF assms(1-4)] by simp
  show "str_contains ''may work in browser'' (reason @ '' (HEAD only, may work in browser)'')"
    by (rule maybe_marker_HEAD_only)
  from assms(3) have "is_failing (Some status_code)"
    by (auto simp: is_failing_def)
  from report_link_failing_url [OF assms(6,7) this] assms(5)
  show "report_link local_file_status url_stat (link_type, url) (file_issues, c)
        = Inr (file_issues @
                 [(link_type, url, Status (Some status_code),
                   reason @ '' (HEAD only, may work in browser)'', ''maybe_ok'')],
               c\<lparr>browser_working_count := browser_working_count c + 1,
                 broken_count := broken_count c + 1\<rparr>)"
    by (simp add: works_marker_HEAD_only maybe_marker_HEAD_only)
qed

theorem head_rejected_get_failed_maybe_ok_witness:
  "urlparse_netloc
      (fixed_env (Inr ''example.org'') (Response 405 ''Method Not Allowed'')
         (RequestException ''timed out''))
      ''http://example.org/a'' = Inr ''example.org''
   \<and> \<not> str_contains ''works with browser headers'' ''Method Not Allowed''
   \<and> report_link []
        [(''http://example.org/a'',
          (Some 405, ''Method Not Allowed (HEAD only, may work in browser)''))]
        (''link'', ''http://example.org/a'') ([], no_counts)
      = Inr ([(''link'', ''http://example.org/a'', Status (Some 405),
               ''Method Not Allowed (HEAD only, may work in browser)'', ''maybe_ok'')],
             \<lparr>broken_count = 1, browser_working_count = 1, definitely_broken_count = 0\<rparr>)"
proof -
  let ?e = "fixed_env (Inr ''example.org'') (Response 405 ''Method Not Allowed'')
         (RequestException ''timed out'')"
  let ?u = "''http://example.org/a''"
  have parse: "urlparse_netloc ?e ?u = Inr ''example.org''"
    by (simp add: fixed_env_def)
  have head: "http_request ?e HEAD ?u = Response 405 ''Method Not Allowed''"
    and get: "http_request ?e GET ?u = RequestException ''timed out''"
    by (simp_all add: fixed_env_def)
  have rejected: "(405 :: int) = 405 \<or> (405 :: int) = 406"
    by simp
  have free: "\<not> str_contains ''works with browser headers'' ''Method Not Allowed''"
    by (simp add: str_contains_def sublist_code)
  have lt: "''link'' \<noteq> ''local_image''"
    by simp
  have lookup: "map_of [(?u, (Some (405 :: int), ''Method Not Allowed (HEAD only, may work in browser)''))] ?u
      = Some (Some 405, ''Method Not Allowed'' @ '' (HEAD only, may work in browser)'')"
    by simp
  from head_rejected_get_failed_maybe_ok [OF parse head rejected get free lt lookup,
      of example_world "[]" "[]" no_counts]
  have "report_link []
        [(?u, (Some 405, ''Method Not Allowed (HEAD only, may work in browser)''))]
        (''link'', ?u) ([], no_counts)
      = Inr ([(''link'', ?u, Status (Some 405),
               ''Method Not Allowed (HEAD only, may work in browser)'', ''maybe_ok'')],
             \<lparr>broken_count = 1, browser_working_count = 1, definitely_broken_count = 0\<rparr>)"
    by (simp add: no_counts_def)
  with parse free show ?thesis by blast
qed

text \<open>
  C9, as stated, fails: a server may answer 404 with the reason phrase
  "works with browser headers". The result then has that reason with status 404, and the
  report's "browser\_ok" branch is taken.
\<close>

theorem browser_marker_counterexample:
  "check_url_with_rate_limit
     (fixed_env (Inr ''example.org'') (Response 404 ''works with browser headers'')
        (Response 404 ''works with browser headers''))
     ''http://example.org/a'' example_world
     = Inr ((Some 404, ''works with browser headers''),
            \<lparr>clock = 1001, domain_last_request = (\<lambda>d. 0)(''example.org'' := 1001),
             requests_sent = [(HEAD, ''http://example.org/a'')]\<rparr>)
   \<and> str_contains ''works with browser headers'' ''works with browser headers''
   \<and> Some (404 :: int) \<noteq> Some 200
   \<and> is_failing (Some 404)
   \<and> report_link []
         [(''http://example.org/a'', (Some 404, ''works with browser headers''))]
         (''link'', ''http://example.org/a'') ([], no_counts)
       = Inr ([(''link'', ''http://example.org/a'', Status (Some 404),
                ''works with browser headers'', ''browser_ok'')],
              \<lparr>broken_count = 1, browser_working_count = 1, definitely_broken_count = 0\<rparr>)"
  by (simp add: run_simps report_simps)

text \<open>
  C9, amended. If neither the reason phrases nor the error texts of the URL's HEAD and GET
  outcomes contain "works with browser headers", then a result of the check whose reason
  contains that phrase has status exactly 200; so no result with status \<^verbatim>\<open>None\<close> or at
  least 400 carries it, and the report never files that result under "browser\_ok".
\<close>

theorem browser_marker_only_with_200:
  assumes "check_url_with_rate_limit e url w = Inr ((status_code, reason), w')"
    and "texts_free_of ''works with browser headers'' e url"
  shows "(str_contains ''works with browser headers'' reason \<longrightarrow> status_code = Some 200)
    \<and> (is_failing status_code \<longrightarrow> \<not> str_contains ''works with browser headers'' reason)
    \<and> (\<forall>link_type local_file_status url_stat file_issues c issues c'.
          map_of url_stat url = Some (status_code, reason)
          \<and> report_link local_file_status url_stat (link_type, url) (file_issues, c) = Inr (issues, c')
          \<longrightarrow> (\<exists>new. issues = file_issues @ new
                 \<and> ''browser_ok'' \<notin> (\<lambda>(link_type, u, status, reason, category). category) ` set new))"
proof -
  have a: "str_contains ''works with browser headers'' reason \<longrightarrow> status_code = Some 200"
    using marker_implies_200 [OF assms] by blast
  then have b: "\<not> (is_failing status_code \<and> str_contains ''works with browser headers'' reason)"
    by (auto simp: is_failing_def)
  have c: "\<exists>new. issues = file_issues @ new
                 \<and> ''browser_ok'' \<notin> (\<lambda>(link_type, u, status, reason, category). category) ` set new"
    if "map_of url_stat url = Some (status_code, reason)
          \<and> report_link local_file_status url_stat (link_type, url) (file_issues, c) = Inr (issues, c')"
    for link_type local_file_status url_stat file_issues c issues c'
    using that b report_link_new_issue [of local_file_status url_stat link_type url file_issues c issues c' status_code reason]
    by blast
  from a b c show ?thesis by blast
qed

theorem browser_marker_only_with_200_witness:
  "texts_free_of ''works with browser headers''
      (fixed_env (Inr ''example.org'') (Response 405 ''Method Not Allowed'') (Response 200 ''OK''))
      ''http://example.org/a''
   \<and> check_url_with_rate_limit
        (fixed_env (Inr ''example.org'') (Response 405 ''Method Not Allowed'') (Response 200 ''OK''))
        ''http://example.org/a'' example_world
      = Inr ((Some 200, ''OK (works with browser headers)''),
             \<lparr>clock = 1002, domain_last_request = (\<lambda>d. 0)(''example.org'' := 1001),
              requests_sent = [(HEAD, ''http://example.org/a''), (GET, ''http://example.org/a'')]\<rparr>)
   \<and> str_contains ''works with browser headers'' ''OK (works with browser headers)''
   \<and> texts_free_of ''works with browser headers''
      (fixed_env (Inr ''example.org'') (Response 404 ''Not Found'') (Response 404 ''Not Found''))
      ''http://example.org/b''
   \<and> check_url_with_rate_limit
        (fixed_env (Inr ''example.org'') (Response 404 ''Not Found'') (Response 404 ''Not Found''))
        ''http://example.org/b'' example_world
      = Inr ((Some 404, ''Not Found''),
             \<lparr>clock = 1001, domain_last_request = (\<lambda>d. 0)(''example.org'' := 1001),
              requests_sent = [(HEAD, ''http://example.org/b'')]\<rparr>)
   \<and> is_failing (Some 404)
   \<and> \<not> str_contains ''works with browser headers'' ''Not Found''"
proof -
  let ?e1 = "fixed_env (Inr ''example.org'') (Response 405 ''Method Not Allowed'') (Response 200 ''OK'')"
  let ?e2 = "fixed_env (Inr ''example.org'') (Response 404 ''Not Found'') (Response 404 ''Not Found'')"
  have free1: "texts_free_of ''works with browser headers'' ?e1 ''http://example.org/a''"
    and free2: "texts_free_of ''works with browser headers'' ?e2 ''http://example.org/b''"
    by (simp_all add: texts_free_of_def fixed_env_def str_contains_def sublist_code)
  have run1: "check_url_with_rate_limit ?e1 ''http://example.org/a'' example_world
      = Inr ((Some 200, ''OK (works with browser headers)''),
             \<lparr>clock = 1002, domain_last_request = (\<lambda>d. 0)(''example.org'' := 1001),
              requests_sent = [(HEAD, ''http://example.org/a''), (GET, ''http://example.org/a'')]\<rparr>)"
    by (simp add: run_simps)
  have run2: "check_url_with_rate_limit ?e2 ''http://example.org/b'' example_world
      = Inr ((Some 404, ''Not Found''),
             \<lparr>clock = 1001, domain_last_request = (\<lambda>d. 0)(''example.org'' := 1001),
              requests_sent = [(HEAD, ''http://example.org/b'')]\<rparr>)"
    by (simp add: run_simps)
  have marked: "str_contains ''works with browser headers'' ''OK (works with browser headers)''"
    by (simp add: str_contains_def sublist_code)
  have failing: "is_failing (Some 404)"
    by (simp add: is_failing_def)
  from browser_marker_only_with_200 [OF run2 free2] failing
  have "\<not> str_contains ''works with browser headers'' ''Not Found''"
    by blast
  with free1 free2 run1 run2 marked failing show ?thesis by blast
qed

text \<open>
  C2, as stated, fails: a document whose only tag is \<^verbatim>\<open><a href="#top">\<close> has one anchor
  tag, and the extractor returns no tuple for it.
\<close>

theorem extract_links_count_counterexample:
  "length (filter (\<lambda>t. tag_name t = ''a'' \<or> tag_name t = ''img'' \<or> tag_name t = ''link'')
      [\<lparr>tag_name = ''a'', attrs = [(''href'', ''#top'')]\<rparr>]) = 1
   \<and> extract_links_from_html (Inr [\<lparr>tag_name = ''a'', attrs = [(''href'', ''#top'')]\<rparr>]) = []"
  by (simp add: extract_simps)

text \<open>
  C2, amended. For every parsed HTML input, the extractor returns one tuple for each
  \<^verbatim>\<open><a>\<close> tag whose href starts with "http" (kind "link"), each \<^verbatim>\<open><img>\<close> tag whose src
  starts with "http" ("image") or else starts with neither "#" nor "data:"
  ("local\_image"), and each \<^verbatim>\<open><link>\<close> tag whose href starts with "http" ("resource"):
  the anchors' tuples first, then the images', then the link tags'. Tags without the
  attribute or failing these tests yield nothing, so an input with N anchor, image and
  link tags gives at most N tuples. A file that cannot be read or parsed gives the empty
  list.
\<close>

theorem extract_links_references:
  "extract_links_from_html (Inr soup)
     = List.map_filter expected_reference (tags_named ''a'' soup)
       @ List.map_filter expected_reference (tags_named ''img'' soup)
       @ List.map_filter expected_reference (tags_named ''link'' soup)
   \<and> length (extract_links_from_html (Inr soup))
       = length (filter (\<lambda>t. expected_reference t \<noteq> None) soup)
   \<and> length (extract_links_from_html (Inr soup))
       \<le> length (filter (\<lambda>t. tag_name t = ''a'' \<or> tag_name t = ''img'' \<or> tag_name t = ''link'') soup)
   \<and> (\<forall>(kind, target) \<in> set (extract_links_from_html (Inr soup)).
         (kind = ''link'' \<or> kind = ''image'' \<or> kind = ''resource'') \<and> startswith target ''http''
         \<or> kind = ''local_image'' \<and> \<not> startswith target ''http''
            \<and> \<not> startswith target ''#'' \<and> \<not> startswith target ''data:'')
   \<and> extract_links_from_html (Inl err) = []"
proof (intro conjI)
  show "extract_links_from_html (Inr soup)
     = List.map_filter expected_reference (tags_named ''a'' soup)
       @ List.map_filter expected_reference (tags_named ''img'' soup)
       @ List.map_filter expected_reference (tags_named ''link'' soup)"
    by (rule extract_links_eq)
  have "length (extract_links_from_html (Inr soup))
      = length (List.map_filter expected_reference (tags_named ''a'' soup))
        + length (List.map_filter expected_reference (tags_named ''img'' soup))
        + length (List.map_filter expected_reference (tags_named ''link'' soup))"
    by (simp only: extract_links_eq length_append add.assoc)
  also have "\<dots> = length (filter (\<lambda>t. expected_reference t \<noteq> None) (tags_named ''a'' soup))
        + length (filter (\<lambda>t. expected_reference t \<noteq> None) (tags_named ''img'' soup))
        + length (filter (\<lambda>t. expected_reference t \<noteq> None) (tags_named ''link'' soup))"
    by (simp only: length_map_filter_eq)
  also have "\<dots> = length (filter (\<lambda>t. expected_reference t \<noteq> None) soup)"
    by (rule count_expected_references [symmetric])
  finally show "length (extract_links_from_html (Inr soup))
       = length (filter (\<lambda>t. expected_reference t \<noteq> None) soup)" .
  have "length (extract_links_from_html (Inr soup))
      \<le> length (tags_named ''a'' soup) + length (tags_named ''img'' soup)
        + length (tags_named ''link'' soup)"
    using length_map_filter_le [of expected_reference "tags_named ''a'' soup"]
      length_map_filter_le [of expected_reference "tags_named ''img'' soup"]
      length_map_filter_le [of expected_reference "tags_named ''link'' soup"]
    by (simp add: extract_links_eq)
  then show "length (extract_links_from_html (Inr soup))
       \<le> length (filter (\<lambda>t. tag_name t = ''a'' \<or> tag_name t = ''img'' \<or> tag_name t = ''link'') soup)"
    by (simp add: count_three_names)
  have kinds: "(kind = ''link'' \<or> kind = ''image'' \<or> kind = ''resource'') \<and> startswith target ''http''
         \<or> kind = ''local_image'' \<and> \<not> startswith target ''http''
            \<and> \<not> startswith target ''#'' \<and> \<not> startswith target ''data:''"
    if "(kind, target) \<in> set (extract_links_from_html (Inr soup))" for kind target
  proof -
    from that obtain t where "expected_reference t = Some (kind, target)"
      by (auto simp: extract_links_eq List.map_filter_def)
    from expected_reference_kind [OF this] show ?thesis
      by blast
  qed
  show "\<forall>(kind, target) \<in> set (extract_links_from_html (Inr soup)).
         (kind = ''link'' \<or> kind = ''image'' \<or> kind = ''resource'') \<and> startswith target ''http''
         \<or> kind = ''local_image'' \<and> \<not> startswith target ''http''
            \<and> \<not> startswith target ''#'' \<and> \<not> startswith target ''data:''"
    using kinds by blast
  show "extract_links_from_html (Inl err) = []"
    by (simp add: extract_links_from_html_def)
qed

theorem extract_links_references_witness:
  "extract_links_from_html (Inr example_soup)
     = [(''link'', ''https://example.org/a''), (''local_image'', ''img/x.png''),
        (''resource'', ''https://cdn.example.org/s.css'')]
   \<and> length (filter (\<lambda>t. tag_name t = ''a'' \<or> tag_name t = ''img'' \<or> tag_name t = ''link'')
        example_soup) = 6
   \<and> (''local_image'', ''img/x.png'') \<in> set (extract_links_from_html (Inr example_soup))
   \<and> \<not> startswith ''img/x.png'' ''http''"
proof -
  have run: "extract_links_from_html (Inr example_soup)
     = [(''link'', ''https://example.org/a''), (''local_image'', ''img/x.png''),
        (''resource'', ''https://cdn.example.org/s.css'')]"
    by (simp add: example_soup_def extract_simps)
  have n: "length (filter (\<lambda>t. tag_name t = ''a'' \<or> tag_name t = ''img'' \<or> tag_name t = ''link'')
        example_soup) = 6"
    by (simp add: example_soup_def)
  from run have mem: "(''local_image'', ''img/x.png'') \<in> set (extract_links_from_html (Inr example_soup))"
    by simp
  from extract_links_references [of example_soup]
  have "\<forall>(kind, target) \<in> set (extract_links_from_html (Inr example_soup)).
         (kind = ''link'' \<or> kind = ''image'' \<or> kind = ''resource'') \<and> startswith target ''http''
         \<or> kind = ''local_image'' \<and> \<not> startswith target ''http''
            \<and> \<not> startswith target ''#'' \<and> \<not> startswith target ''data:''"
    by blast
  with mem have "\<not> startswith ''img/x.png'' ''http''"
    by fastforce
  with run n mem show ?thesis by blast
qed

text \<open>
  C4. The batch dictionaries are merged into the aggregate dictionary in the order in which
  the batches complete. Whatever that order (any permutation of the batches), the keys of
  the aggregate are the union of the batches' keys, and every batch is counted as
  completed. (Disjoint key sets are not needed for this.)
\<close>

theorem merged_key_set:
  assumes "mset completion_order = mset batches"
  shows "fst ` set (url_status (merge_completed (map Inr completion_order) initial_merge_state))
           = (\<Union>b \<in> set batches. fst ` set b)
    \<and> completed_batches (merge_completed (map Inr completion_order) initial_merge_state)
           = length batches"
proof -
  from assms have "set completion_order = set batches"
    by (rule mset_eq_setD)
  moreover from assms have "length completion_order = length batches"
    by (rule mset_eq_length)
  moreover have "{b. (Inr b :: py_error + url_dict) \<in> set (map Inr completion_order)}
      = set completion_order"
    by auto
  ultimately show ?thesis
    by (simp add: keys_merge_completed completed_batches_merge_completed initial_merge_state_def)
qed

theorem merged_key_set_witness:
  "mset [[(''http://b.org/'', (Some 404, ''Not Found''))],
         [(''http://a.org/'', (Some 200, ''OK'')), (''http://c.org/'', (None, ''timed out''))]]
     = mset [[(''http://a.org/'', (Some (200 :: int), ''OK'')), (''http://c.org/'', (None, ''timed out''))],
             [(''http://b.org/'', (Some 404, ''Not Found''))]]
   \<and> fst ` set (url_status (merge_completed
         (map Inr [[(''http://b.org/'', (Some 404, ''Not Found''))],
                   [(''http://a.org/'', (Some 200, ''OK'')), (''http://c.org/'', (None, ''timed out''))]])
         initial_merge_state))
     = {''http://a.org/'', ''http://b.org/'', ''http://c.org/''}"
proof -
  let ?b1 = "[(''http://a.org/'', (Some (200 :: int), ''OK'')), (''http://c.org/'', (None, ''timed out''))]"
  let ?b2 = "[(''http://b.org/'', (Some (404 :: int), ''Not Found''))]"
  have perm: "mset [?b2, ?b1] = mset [?b1, ?b2]"
    by (simp add: add.commute)
  from merged_key_set [OF perm]
  have "fst ` set (url_status (merge_completed (map Inr [?b2, ?b1]) initial_merge_state))
      = (\<Union>b \<in> set [?b1, ?b2]. fst ` set b)"
    by (rule conjunct1)
  also have "\<dots> = {''http://a.org/'', ''http://b.org/'', ''http://c.org/''}"
    by auto
  finally show ?thesis using perm by blast
qed

text \<open>
  C6. The local file check answers \<^verbatim>\<open>(True, "File exists")\<close> when the path exists joined to
  the HTML directory, or else joined to \<^verbatim>\<open>os.path.dirname\<close> of the HTML directory (the
  project root), and \<^verbatim>\<open>(False, "File not found")\<close> when it exists at neither place. For a
  relative path and the HTML directory \<^verbatim>\<open>../html\<close> of \<^verbatim>\<open>main\<close>, the two places are
  \<^verbatim>\<open>../html/<path>\<close> and \<^verbatim>\<open>../<path>\<close>.
\<close>

theorem check_local_file_two_locations:
  "check_local_file os_path_exists file_path html_dir =
     (if os_path_exists (os_path_join html_dir file_path)
         \<or> os_path_exists (os_path_join (os_path_dirname html_dir) file_path)
      then (True, ''File exists'') else (False, ''File not found''))
   \<and> (\<not> startswith file_path ''/'' \<longrightarrow>
        os_path_join ''../html'' file_path = ''../html/'' @ file_path
        \<and> os_path_join (os_path_dirname ''../html'') file_path = ''../'' @ file_path)"
proof -
  have dir: "os_path_dirname ''../html'' = ''..''"
    by (simp add: os_path_dirname_def rstrip_sep_def Let_def)
  show ?thesis
    by (simp add: check_local_file_def Let_def os_path_join_def dir endswith_def suffix_def)
qed

theorem check_local_file_two_locations_witness:
  "\<not> startswith ''img/x.png'' ''/''
   \<and> check_local_file (\<lambda>p. p = ''../img/x.png'') ''img/x.png'' ''../html'' = (True, ''File exists'')
   \<and> check_local_file (\<lambda>p. p = ''../html/img/x.png'') ''img/x.png'' ''../html'' = (True, ''File exists'')
   \<and> check_local_file (\<lambda>p. False) ''img/x.png'' ''../html'' = (False, ''File not found'')"
proof -
  have rel: "\<not> startswith ''img/x.png'' ''/''"
    by (simp add: startswith_def)
  have paths: "os_path_join ''../html'' ''img/x.png'' = ''../html/'' @ ''img/x.png''"
    "os_path_join (os_path_dirname ''../html'') ''img/x.png'' = ''../'' @ ''img/x.png''"
    using check_local_file_two_locations [of "\<lambda>p. False" "''img/x.png''" "''../html''"] rel
    by blast+
  have "check_local_file (\<lambda>p. p = ''../img/x.png'') ''img/x.png'' ''../html'' = (True, ''File exists'')"
    using check_local_file_two_locations [of "\<lambda>p. p = ''../img/x.png''" "''img/x.png''" "''../html''"]
    by (simp add: paths)
  moreover
  have "check_local_file (\<lambda>p. p = ''../html/img/x.png'') ''img/x.png'' ''../html'' = (True, ''File exists'')"
    using check_local_file_two_locations [of "\<lambda>p. p = ''../html/img/x.png''" "''img/x.png''" "''../html''"]
    by (simp add: paths)
  moreover
  have "check_local_file (\<lambda>p. False) ''img/x.png'' ''../html'' = (False, ''File not found'')"
    using check_local_file_two_locations [of "\<lambda>p. False" "''img/x.png''" "''../html''"]
    by simp
  ultimately show ?thesis using rel by blast
qed

end
